theory Spec2Isabelle
  imports Main "HOL-Library.Sublist"
begin

section \<open>Data model of app.ts\<close>

text \<open>
  Objects that are mutated through shared references (the subscribers, whose
  \<open>isPending\<close> field the service assigns) live in a store and are named by a reference.
\<close>

type_synonym ref = nat

text \<open>
  \<open>interface IEvent { type(): string; machineId(): string }\<close> and the two classes that
  implement it. All fields are \<open>private readonly\<close>, so an event is the value it was
  constructed with. \<open>OtherEvent t m\<close> stands for any other object that satisfies the
  interface, given by what its \<open>type()\<close> and \<open>machineId()\<close> return. The payload type
  \<open>'n\<close> is the representation of the source's \<open>number\<close>.
\<close>

datatype 'n IEvent =
    MachineSaleEvent 'n string
  | MachineRefillEvent 'n string
  | OtherEvent string string

text \<open>The method \<open>type()\<close> of an event (the name \<open>type\<close> is the field of \<open>IHandler\<close> below).\<close>

fun event_type :: "'n IEvent \<Rightarrow> string" where
  "event_type (MachineSaleEvent sold mid) = ''sale''"
| "event_type (MachineRefillEvent refill mid) = ''refill''"
| "event_type (OtherEvent t mid) = t"

fun machineId :: "'n IEvent \<Rightarrow> string" where
  "machineId (MachineSaleEvent sold mid) = mid"
| "machineId (MachineRefillEvent refill mid) = mid"
| "machineId (OtherEvent t mid) = mid"

text \<open>
  \<open>getSoldQuantity\<close> exists on \<open>MachineSaleEvent\<close> only and \<open>getRefillQuantity\<close> on
  \<open>MachineRefillEvent\<close> only: \<open>None\<close> is "the object has no such method" (calling it
  throws a TypeError at run time, the parameter types of \<open>handle\<close> being erased).
\<close>

fun getSoldQuantity :: "'n IEvent \<Rightarrow> 'n option" where
  "getSoldQuantity (MachineSaleEvent sold mid) = Some sold"
| "getSoldQuantity (MachineRefillEvent refill mid) = None"
| "getSoldQuantity (OtherEvent t mid) = None"

fun getRefillQuantity :: "'n IEvent \<Rightarrow> 'n option" where
  "getRefillQuantity (MachineSaleEvent sold mid) = None"
| "getRefillQuantity (MachineRefillEvent refill mid) = Some refill"
| "getRefillQuantity (OtherEvent t mid) = None"

text \<open>
  A subscriber object as the service sees it: \<open>handler.constructor.name\<close> (the name of
  its class) and the public mutable field \<open>isPending\<close>.
\<close>

record ISubscriber =
  constructor_name :: string
  isPending :: bool

text \<open>\<open>interface IHandler { type: string; handler: ISubscriber }\<close>; the handler is a reference.\<close>

record IHandler =
  type :: string
  handler :: ref

text \<open>\<open>class Machine\<close>; the field \<open>id\<close> is called \<open>machine_id\<close> here.\<close>

record Machine =
  stockLevel :: int
  machine_id :: string

text \<open>
  The mutable state of the program: the private array \<open>handlers\<close> of the one
  \<open>PublishSubscribeService\<close>, the subscriber objects, and the array \<open>machines\<close> that the
  subscribers share.
\<close>

record world =
  handlers :: "IHandler list"
  subscribers :: "ref \<Rightarrow> ISubscriber"
  machines :: "Machine list"

text \<open>
  The operations below are written for a world that may have further components (the
  type \<open>'a world_scheme\<close>: the three fields and an extension \<open>'a\<close>); they read and
  assign these three fields only.
\<close>

text \<open>How a call ends: it returns, or an exception leaves it.\<close>

datatype error = TypeError | Error string

datatype completion = Returned | Threw error

text \<open>
  The \<open>handle\<close> methods of the subscriber objects: \<open>handle r event w\<close> is what
  \<open>r.handle(pubSubService, event)\<close> does in world \<open>w\<close>. The service is the one in the
  world, so a body calls \<open>subscribe\<close> and \<open>unsubscribe\<close> below on the world it is given.
\<close>

type_synonym ('n, 'a) handle_method =
  "ref \<Rightarrow> 'n IEvent \<Rightarrow> 'a world_scheme \<Rightarrow> completion \<times> 'a world_scheme"

section \<open>PublishSubscribeService\<close>

text \<open>\<open>handler.isPending = b\<close>\<close>

definition set_isPending :: "ref \<Rightarrow> bool \<Rightarrow> 'a world_scheme \<Rightarrow> 'a world_scheme" where
  "set_isPending r b w = w\<lparr>subscribers := (subscribers w)(r := (subscribers w r)\<lparr>isPending := b\<rparr>)\<rparr>"

text \<open>
  The stage \<open>.map(it => { it.handler.isPending = true; return it })\<close> of \<open>publish\<close>: it
  runs over the whole filtered array before \<open>forEach\<close> starts, and returns the records
  as they are.
\<close>

fun mark_pending :: "IHandler list \<Rightarrow> 'a world_scheme \<Rightarrow> 'a world_scheme" where
  "mark_pending [] w = w"
| "mark_pending (it # its) w = mark_pending its (set_isPending (handler it) True w)"

text \<open>
  The stage \<open>.forEach(({handler, type}) => { handler.handle(this, event);
  handler.isPending = false })\<close>. Beside the completion and the final world it returns
  the list of the calls made: the record visited and the world in which its \<open>handle\<close> was
  entered. An exception thrown by a body is not caught: the loop stops there.
\<close>

fun forEach :: "('n, 'a) handle_method \<Rightarrow> 'n IEvent \<Rightarrow> IHandler list \<Rightarrow> 'a world_scheme
    \<Rightarrow> (IHandler \<times> 'a world_scheme) list \<times> completion \<times> 'a world_scheme" where
  "forEach handle event [] w = ([], Returned, w)"
| "forEach handle event (it # its) w =
     (case handle (handler it) event w of
        (Threw x, w') \<Rightarrow> ([(it, w)], Threw x, w')
      | (Returned, w') \<Rightarrow>
          (case forEach handle event its (set_isPending (handler it) False w') of
             (calls, c, w'') \<Rightarrow> ((it, w) # calls, c, w'')))"

text \<open>\<open>publish(event)\<close>, lines 28-41.\<close>

definition publish :: "('n, 'a) handle_method \<Rightarrow> 'n IEvent \<Rightarrow> 'a world_scheme
    \<Rightarrow> (IHandler \<times> 'a world_scheme) list \<times> completion \<times> 'a world_scheme" where
  "publish handle event w =
     (if length (handlers w) = 0 then ([], Returned, w)
      else
        let snapshot = filter (\<lambda>it. type it = event_type event) (handlers w)
        in forEach handle event snapshot (mark_pending snapshot w))"

text \<open>\<open>subscribe(type, handler)\<close>, lines 43-50.\<close>

definition subscribe :: "string \<Rightarrow> ref \<Rightarrow> 'a world_scheme \<Rightarrow> 'a world_scheme" where
  "subscribe t h w =
     (case find (\<lambda>it. type it = t) (handlers w) of
        Some existingHandler \<Rightarrow>
          if constructor_name (subscribers w (handler existingHandler))
               = constructor_name (subscribers w h)
          then w
          else w\<lparr>handlers := handlers w @ [\<lparr>type = t, handler = h\<rparr>]\<rparr>
      | None \<Rightarrow> w\<lparr>handlers := handlers w @ [\<lparr>type = t, handler = h\<rparr>]\<rparr>)"

text \<open>\<open>unsubscribe(type, handler?)\<close>, lines 52-58; an omitted handler is \<open>None\<close>.\<close>

definition unsubscribe :: "string \<Rightarrow> ref option \<Rightarrow> 'a world_scheme \<Rightarrow> 'a world_scheme" where
  "unsubscribe t h w =
     w\<lparr>handlers := filter (\<lambda>it.
          case h of
            Some h' \<Rightarrow> type it \<noteq> t
              \<or> constructor_name (subscribers w (handler it)) \<noteq> constructor_name (subscribers w h')
          | None \<Rightarrow> type it \<noteq> t) (handlers w)\<rparr>"

section \<open>The subscriber classes of app.ts\<close>

text \<open>
  The source's \<open>number\<close> is taken as \<open>int\<close> in the subscriber bodies: the program builds
  stock levels from 10 and the quantities 1, 2, 3 and 5 by addition and subtraction only.
  Console output is left out.
\<close>

text \<open>\<open>LowStockWarningSubscriber.checkStock\<close>\<close>

definition checkStock :: "int \<Rightarrow> bool" where
  "checkStock stockLevelAfterSale = (stockLevelAfterSale < 3)"

text \<open>
  \<open>machine.stockLevel = v\<close> for the machine that
  \<open>this.machines.find(it => it.id === i)\<close> returned: the first one with that id.
\<close>

fun assign_stockLevel :: "string \<Rightarrow> int \<Rightarrow> Machine list \<Rightarrow> Machine list" where
  "assign_stockLevel i v [] = []"
| "assign_stockLevel i v (m # ms) =
     (if machine_id m = i then m\<lparr>stockLevel := v\<rparr> # ms else m # assign_stockLevel i v ms)"

text \<open>\<open>MachineSaleSubscriber.handle\<close>, lines 98-105.\<close>

definition MachineSaleSubscriber_handle ::
    "int IEvent \<Rightarrow> 'a world_scheme \<Rightarrow> completion \<times> 'a world_scheme" where
  "MachineSaleSubscriber_handle event w =
     (case find (\<lambda>it. machine_id it = machineId event) (machines w) of
        None \<Rightarrow> (Returned, w)
      | Some machine \<Rightarrow>
          (case getSoldQuantity event of
             None \<Rightarrow> (Threw TypeError, w)
           | Some sold \<Rightarrow>
               (Returned, w\<lparr>machines :=
                  assign_stockLevel (machineId event) (stockLevel machine - sold) (machines w)\<rparr>)))"

text \<open>
  \<open>LowStockWarningSubscriber.handle\<close>, lines 116-130, for an object whose field
  \<open>saleSubscriber\<close> holds the given reference.
\<close>

definition LowStockWarningSubscriber_handle ::
    "ref \<Rightarrow> int IEvent \<Rightarrow> 'a world_scheme \<Rightarrow> completion \<times> 'a world_scheme" where
  "LowStockWarningSubscriber_handle saleSubscriber event w =
     (case find (\<lambda>it. machine_id it = machineId event) (machines w) of
        None \<Rightarrow> (Returned, w)
      | Some machine \<Rightarrow>
          (case (if isPending (subscribers w saleSubscriber)
                 then map_option (\<lambda>sold. stockLevel machine - sold) (getSoldQuantity event)
                 else Some (stockLevel machine)) of
             None \<Rightarrow> (Threw TypeError, w)
           | Some stockLevelAfterSale \<Rightarrow>
               (let isLowStock = checkStock stockLevelAfterSale
                in if isLowStock then (Returned, unsubscribe ''sale'' (Some saleSubscriber) w)
                   else (Returned, w))))"

text \<open>
  \<open>MachineRefillSubscriber.handle\<close>, lines 146-156, for an object whose field
  \<open>saleSubscriber\<close> holds the given reference (its field \<open>lowStockWarningSubscriber\<close> is
  used for \<open>checkStock\<close> only).
\<close>

definition MachineRefillSubscriber_handle ::
    "ref \<Rightarrow> int IEvent \<Rightarrow> 'a world_scheme \<Rightarrow> completion \<times> 'a world_scheme" where
  "MachineRefillSubscriber_handle saleSubscriber event w =
     (case find (\<lambda>it. machine_id it = machineId event) (machines w) of
        None \<Rightarrow> (Returned, w)
      | Some machine \<Rightarrow>
          (case getRefillQuantity event of
             None \<Rightarrow> (Threw TypeError, w)
           | Some refill \<Rightarrow>
               (let w1 = w\<lparr>machines :=
                      assign_stockLevel (machineId event) (stockLevel machine + refill) (machines w)\<rparr>
                in if \<not> checkStock (stockLevel machine + refill)
                   then (Returned, subscribe ''sale'' saleSubscriber w1)
                   else (Returned, w1))))"

text \<open>
  The objects of the program, lines 197-209: the three subscribers are the references
  0, 1 and 2; three machines with stock 10; a service with no subscription.
\<close>

definition saleSubscriber :: ref where
  "saleSubscriber = 0"

definition lowStockWarningSubscriber :: ref where
  "lowStockWarningSubscriber = 1"

definition refillSubscriber :: ref where
  "refillSubscriber = 2"

definition program_objects :: world where
  "program_objects =
     \<lparr>handlers = [],
      subscribers = (\<lambda>r. \<lparr>constructor_name =
          (if r = 0 then ''MachineSaleSubscriber''
           else if r = 1 then ''LowStockWarningSubscriber''
           else ''MachineRefillSubscriber''),
        isPending = False\<rparr>),
      machines = [\<lparr>stockLevel = 10, machine_id = ''001''\<rparr>,
                  \<lparr>stockLevel = 10, machine_id = ''002''\<rparr>,
                  \<lparr>stockLevel = 10, machine_id = ''003''\<rparr>]\<rparr>"

text \<open>The \<open>handle\<close> method of each of these objects.\<close>

definition program_handle :: "(int, 'a) handle_method" where
  "program_handle r =
     (if r = saleSubscriber then MachineSaleSubscriber_handle
      else if r = lowStockWarningSubscriber then LowStockWarningSubscriber_handle saleSubscriber
      else MachineRefillSubscriber_handle saleSubscriber)"

text \<open>(The program has no fourth object; any other reference is given the last body.)\<close>

text \<open>The world after the three \<open>subscribe\<close> calls of lines 211-213.\<close>

definition program_start :: world where
  "program_start =
     subscribe ''refill'' refillSubscriber
       (subscribe ''sale'' lowStockWarningSubscriber
         (subscribe ''sale'' saleSubscriber program_objects))"

text \<open>
  \<open>events.map(e => pubSubService.publish(e))\<close>, line 219, for a given list of events
  (the program draws five at random): the events are published one after the other, and
  an exception that leaves a \<open>publish\<close> call ends the run.
\<close>

fun publish_all :: "('n, 'a) handle_method \<Rightarrow> 'n IEvent list \<Rightarrow> 'a world_scheme
    \<Rightarrow> completion \<times> 'a world_scheme" where
  "publish_all handle [] w = (Returned, w)"
| "publish_all handle (e # es) w =
     (case publish handle e w of
        (calls, Threw x, w') \<Rightarrow> (Threw x, w')
      | (calls, Returned, w') \<Rightarrow> publish_all handle es w')"

section \<open>Event objects in the store\<close>

text \<open>
  The event handed to \<open>publish\<close> is an object as well, and every \<open>handle\<close> is given a
  reference to it. The state of an event object is its class and its two private fields,
  that is a value of \<open>'n IEvent\<close>. A world with event objects has a store of them beside
  the three fields above, so that what an operation does to an event can be said.
\<close>

type_synonym eref = nat

record 'n event_world = world +
  events :: "eref \<Rightarrow> 'n IEvent"

text \<open>A \<open>handle\<close> method that is given the event by reference.\<close>

type_synonym 'n handle_by_ref =
  "ref \<Rightarrow> eref \<Rightarrow> 'n event_world \<Rightarrow> completion \<times> 'n event_world"

text \<open>
  \<open>publish(event)\<close> for an event object in the store: \<open>event.type()\<close> is read by the
  filter stage, before any \<open>handle\<close> runs, and each \<open>handle\<close> is given the reference.
\<close>

definition publish_ref :: "'n handle_by_ref \<Rightarrow> eref \<Rightarrow> 'n event_world
    \<Rightarrow> (IHandler \<times> 'n event_world) list \<times> completion \<times> 'n event_world" where
  "publish_ref handle e w = publish (\<lambda>r v. handle r e) (events w e) w"

text \<open>
  The three operations of \<open>IPublishSubscribeService\<close>, and the world that a call leaves
  (for \<open>publish\<close>, whether it returns or throws).
\<close>

datatype operation = Publish eref | Subscribe string ref | Unsubscribe string "ref option"

fun run :: "'n handle_by_ref \<Rightarrow> operation \<Rightarrow> 'n event_world \<Rightarrow> 'n event_world" where
  "run handle (Publish e) w = snd (snd (publish_ref handle e w))"
| "run handle (Subscribe t h) w = subscribe t h w"
| "run handle (Unsubscribe t h) w = unsubscribe t h w"

text \<open>A sequence of operations, one after the other.\<close>

definition run_all :: "'n handle_by_ref \<Rightarrow> operation list \<Rightarrow> 'n event_world \<Rightarrow> 'n event_world" where
  "run_all handle ops w = fold (run handle) ops w"

text \<open>
  The bodies of the program's subscribers, given the event by reference. They reach the
  event through its methods only, and nothing else runs during a body, so a body sees
  the state the event object has when the body is entered.
\<close>

definition program_handle_ref :: "int handle_by_ref" where
  "program_handle_ref r e w = program_handle r (events w e) w"

text \<open>
  The program's start with two event objects: \<open>new MachineSaleEvent(2, '001')\<close> at 0 and
  \<open>new MachineRefillEvent(3, '001')\<close> at every other reference.
\<close>

definition program_with_events :: "int event_world" where
  "program_with_events =
     \<lparr>handlers = handlers program_start, subscribers = subscribers program_start,
      machines = machines program_start,
      events = (\<lambda>e. if e = 0 then MachineSaleEvent 2 ''001'' else MachineRefillEvent 3 ''001'')\<rparr>"

section \<open>Handlers for the scenarios of the specification\<close>

text \<open>
  Three subscriber objects 0, 1 and 2 of the classes \<open>A\<close>, \<open>B\<close> and \<open>C\<close>, no subscription,
  no machine.
\<close>

definition abc_objects :: world where
  "abc_objects =
     \<lparr>handlers = [],
      subscribers = (\<lambda>r. \<lparr>constructor_name =
          (if r = 0 then ''A'' else if r = 1 then ''B'' else ''C''),
        isPending = False\<rparr>),
      machines = []\<rparr>"

text \<open>Every \<open>handle\<close> body is empty.\<close>

definition idle_handle :: "('n, 'a) handle_method" where
  "idle_handle r event w = (Returned, w)"

text \<open>The body of \<open>b\<close> is \<open>pubSubService.unsubscribe("x", c)\<close>; every other body is empty.\<close>

definition unsubscribing_handle :: "ref \<Rightarrow> ref \<Rightarrow> ('n, 'a) handle_method" where
  "unsubscribing_handle b c r event w =
     (if r = b then (Returned, unsubscribe ''x'' (Some c) w) else (Returned, w))"

text \<open>The body of \<open>b\<close> is \<open>throw new Error("boom")\<close>; every other body is empty.\<close>

definition throwing_handle :: "ref \<Rightarrow> ('n, 'a) handle_method" where
  "throwing_handle b r event w =
     (if r = b then (Threw (Error ''boom''), w) else (Returned, w))"

text \<open>The three objects subscribed to \<open>"x"\<close> in the order A, B, C.\<close>

definition abc_subscribed :: world where
  "abc_subscribed = subscribe ''x'' 2 (subscribe ''x'' 1 (subscribe ''x'' 0 abc_objects))"

text \<open>The calls \<open>subscribe("x", C)\<close>, \<open>subscribe("x", A)\<close>, \<open>subscribe("x", B)\<close>, \<open>subscribe("x", A)\<close>.\<close>

definition caba_subscribed :: world where
  "caba_subscribed =
     subscribe ''x'' 0 (subscribe ''x'' 1 (subscribe ''x'' 0 (subscribe ''x'' 2 abc_objects)))"

text \<open>
  A registry with two objects of the class \<open>MachineSaleSubscriber\<close>: the object 3
  subscribed to \<open>"sale"\<close> and the object 0 to \<open>"refill"\<close>, beside a low stock warning
  (1) and a refill subscriber (2).
\<close>

definition two_sale_objects :: world where
  "two_sale_objects =
     \<lparr>handlers = [\<lparr>type = ''refill'', handler = 2\<rparr>, \<lparr>type = ''sale'', handler = 3\<rparr>,
                  \<lparr>type = ''sale'', handler = 1\<rparr>, \<lparr>type = ''refill'', handler = 0\<rparr>],
      subscribers = (\<lambda>r. \<lparr>constructor_name =
          (if r = 0 \<or> r = 3 then ''MachineSaleSubscriber''
           else if r = 1 then ''LowStockWarningSubscriber''
           else ''MachineRefillSubscriber''),
        isPending = False\<rparr>),
      machines = []\<rparr>"

section \<open>Properties of handle bodies\<close>

text \<open>
  No \<open>handle\<close> body changes an \<open>isPending\<close> field, whether by an assignment of its own
  or by a nested \<open>publish\<close>: the field is toggled by the \<open>publish\<close> call alone.
\<close>

definition keeps_isPending :: "('n, 'a) handle_method \<Rightarrow> bool" where
  "keeps_isPending handle =
     (\<forall>r event w p. isPending (subscribers (snd (handle r event w)) p) = isPending (subscribers w p))"

text \<open>
  No \<open>handle\<close> body assigns to an event object. (The fields are \<open>private readonly\<close> and
  the classes have no method that assigns them, so a body can reach them by the four
  methods only; the bodies of the program satisfy this.)
\<close>

definition keeps_events :: "'n handle_by_ref \<Rightarrow> bool" where
  "keeps_events handle = (\<forall>r e w. events (snd (handle r e w)) = events w)"

section \<open>Basic facts\<close>

lemma set_isPending_simps:
  "handlers (set_isPending r b w) = handlers w"
  "machines (set_isPending r b w) = machines w"
  "constructor_name (subscribers (set_isPending r b w) p) = constructor_name (subscribers w p)"
  "isPending (subscribers (set_isPending r b w) p) = (if p = r then b else isPending (subscribers w p))"
  by (simp_all add: set_isPending_def)

lemma mark_pending_handlers: "handlers (mark_pending its w) = handlers w"
  by (induction its arbitrary: w) (simp_all add: set_isPending_simps)

lemma mark_pending_machines: "machines (mark_pending its w) = machines w"
  by (induction its arbitrary: w) (simp_all add: set_isPending_simps)

lemma mark_pending_constructor_name:
  "constructor_name (subscribers (mark_pending its w) p) = constructor_name (subscribers w p)"
  by (induction its arbitrary: w) (simp_all add: set_isPending_simps)

lemma mark_pending_isPending:
  "isPending (subscribers (mark_pending its w) p) = (p \<in> handler ` set its \<or> isPending (subscribers w p))"
  by (induction its arbitrary: w) (auto simp: set_isPending_simps)

lemma forEach_prefix_eq:
  "forEach handle event its w = (calls, c, w') \<Longrightarrow> prefix (map fst calls) its"
proof (induction its arbitrary: w calls c w')
  case Nil
  then show ?case by simp
next
  case (Cons it its)
  then show ?case
    by (fastforce split: prod.splits completion.splits)
qed

lemma forEach_Returned_eq:
  "forEach handle event its w = (calls, Returned, w') \<Longrightarrow> map fst calls = its"
proof (induction its arbitrary: w calls w')
  case Nil
  then show ?case by simp
next
  case (Cons it its)
  then show ?case
    by (fastforce split: prod.splits completion.splits)
qed




lemma forEach_Threw_calls:
  "forEach handle event its w = (calls, Threw x, w') \<Longrightarrow> calls \<noteq> []"
  by (cases its) (auto split: prod.splits completion.splits)

lemma forEach_entry_isPending:
  assumes P: "\<forall>r e v p. isPending (subscribers (snd (handle r e v)) p) = isPending (subscribers v p)"
  shows "forEach handle event its w = (calls, c, w') \<Longrightarrow> i < length calls \<Longrightarrow>
    isPending (subscribers (snd (calls ! i)) p)
      = (p \<notin> handler ` set (take i its) \<and> isPending (subscribers w p))"
proof (induction its arbitrary: w calls c w' i)
  case Nil
  then show ?case by simp
next
  case (Cons it its)
  show ?case
  proof (cases "handle (handler it) event w")
    case (Pair r w1)
    have keep: "isPending (subscribers w1 p) = isPending (subscribers w p)"
      using P [rule_format, of "handler it" event w p] Pair by simp
    show ?thesis
    proof (cases r)
      case (Threw x)
      with Pair Cons.prems show ?thesis by auto
    next
      case Returned
      obtain calls2 c2 w2 where rest:
        "forEach handle event its (set_isPending (handler it) False w1) = (calls2, c2, w2)"
        by (cases "forEach handle event its (set_isPending (handler it) False w1)") auto
      with Pair Returned Cons.prems have calls: "calls = (it, w) # calls2" by simp
      show ?thesis
      proof (cases i)
        case 0
        with calls show ?thesis by simp
      next
        case (Suc k)
        with calls Cons.prems have "k < length calls2" by simp
        from Cons.IH [OF rest this] keep Suc calls show ?thesis
          by (auto simp: set_isPending_simps)
      qed
    qed
  qed
qed

lemma forEach_final_isPending:
  assumes P: "\<forall>r e v p. isPending (subscribers (snd (handle r e v)) p) = isPending (subscribers v p)"
  shows "forEach handle event its w = (calls, c, w') \<Longrightarrow>
    isPending (subscribers w' p)
      = (p \<notin> handler ` set (take (if c = Returned then length calls else length calls - 1) its)
          \<and> isPending (subscribers w p))"
proof (induction its arbitrary: w calls c w')
  case Nil
  then show ?case by simp
next
  case (Cons it its)
  show ?case
  proof (cases "handle (handler it) event w")
    case (Pair r w1)
    have keep: "isPending (subscribers w1 p) = isPending (subscribers w p)"
      using P [rule_format, of "handler it" event w p] Pair by simp
    show ?thesis
    proof (cases r)
      case (Threw x)
      with Pair Cons.prems keep show ?thesis by auto
    next
      case Returned
      obtain calls2 c2 w2 where rest:
        "forEach handle event its (set_isPending (handler it) False w1) = (calls2, c2, w2)"
        by (cases "forEach handle event its (set_isPending (handler it) False w1)") auto
      with Pair Returned Cons.prems have calls: "calls = (it, w) # calls2" "c = c2" "w' = w2"
        by simp_all
      have ne: "c2 \<noteq> Returned \<Longrightarrow> calls2 \<noteq> []"
        using rest forEach_Threw_calls [of handle event its _ calls2 _ w2] by (cases c2) auto
      from Cons.IH [OF rest] keep calls ne show ?thesis
        by (cases calls2) (auto simp: set_isPending_simps)
    qed
  qed
qed

lemma forEach_call_completion:
  "forEach handle event its w = (calls, c, w') \<Longrightarrow> i < length calls \<Longrightarrow>
     fst (handle (handler (fst (calls ! i))) event (snd (calls ! i)))
       = (if Suc i = length calls then c else Returned)"
proof (induction its arbitrary: w calls c w' i)
  case Nil
  then show ?case by simp
next
  case (Cons it its)
  show ?case
  proof (cases "handle (handler it) event w")
    case (Pair r w1)
    show ?thesis
    proof (cases r)
      case (Threw x)
      with Pair Cons.prems show ?thesis by auto
    next
      case Returned
      obtain calls2 c2 w2 where rest:
        "forEach handle event its (set_isPending (handler it) False w1) = (calls2, c2, w2)"
        by (cases "forEach handle event its (set_isPending (handler it) False w1)") auto
      with Pair Returned Cons.prems have calls: "calls = (it, w) # calls2" "c = c2"
        by simp_all
      have ne: "c2 \<noteq> Returned \<Longrightarrow> calls2 \<noteq> []"
        using rest forEach_Threw_calls [of handle event its _ calls2 _ w2] by (cases c2) auto
      show ?thesis
      proof (cases i)
        case 0
        with calls Pair Returned ne show ?thesis by (cases calls2) auto
      next
        case (Suc k)
        with calls Cons.prems have "k < length calls2" by simp
        from Cons.IH [OF rest this] Suc calls show ?thesis by simp
      qed
    qed
  qed
qed

lemma distinct_take_mem:
  assumes "distinct (map f xs)" and "j < length xs"
  shows "(f (xs ! j) \<in> f ` set (take i xs)) = (j < i)"
proof
  assume "f (xs ! j) \<in> f ` set (take i xs)"
  then obtain k where k: "k < i" "k < length xs" "f (xs ! k) = f (xs ! j)"
    by (auto simp: in_set_conv_nth)
  with assms have "k = j"
    by (metis length_map nth_eq_iff_index_eq nth_map)
  with k show "j < i" by simp
next
  assume "j < i"
  with assms show "f (xs ! j) \<in> f ` set (take i xs)"
    by (auto simp: in_set_conv_nth intro!: imageI exI [of _ j])
qed

lemma abc_subscribed_eq:
  "abc_subscribed = abc_objects\<lparr>handlers :=
     [\<lparr>type = ''x'', handler = 0\<rparr>, \<lparr>type = ''x'', handler = 1\<rparr>, \<lparr>type = ''x'', handler = 2\<rparr>]\<rparr>"
  by (simp add: abc_subscribed_def subscribe_def abc_objects_def)

lemma caba_subscribed_eq:
  "caba_subscribed = abc_objects\<lparr>handlers :=
     [\<lparr>type = ''x'', handler = 2\<rparr>, \<lparr>type = ''x'', handler = 0\<rparr>,
      \<lparr>type = ''x'', handler = 1\<rparr>, \<lparr>type = ''x'', handler = 0\<rparr>]\<rparr>"
  by (simp add: caba_subscribed_def subscribe_def abc_objects_def)

lemma program_start_eq:
  "program_start = program_objects\<lparr>handlers :=
      [\<lparr>type = ''sale'', handler = 0\<rparr>, \<lparr>type = ''sale'', handler = 1\<rparr>,
       \<lparr>type = ''refill'', handler = 2\<rparr>]\<rparr>"
  by (simp add: program_start_def subscribe_def program_objects_def saleSubscriber_def
      lowStockWarningSubscriber_def refillSubscriber_def)

lemma find_append_skip: "\<forall>x \<in> set xs. \<not> P x \<Longrightarrow> find P (xs @ ys) = find P ys"
  by (induction xs) simp_all

lemma filter_append_skip: "\<forall>x \<in> set xs. \<not> P x \<Longrightarrow> filter P (xs @ ys) = filter P ys"
  by (induction xs) simp_all

lemma forEach_first_entry:
  "forEach handle event its w = (calls, c, w') \<Longrightarrow> calls \<noteq> [] \<Longrightarrow> snd (calls ! 0) = w"
  by (cases its) (auto split: prod.splits completion.splits)

lemma forEach_calls_take:
  assumes "forEach handle event its w = (calls, c, w')"
  shows "map fst calls = take (length calls) its"
proof -
  from forEach_prefix_eq [OF assms] obtain zs where "its = map fst calls @ zs"
    by (auto simp: prefix_def)
  then show ?thesis by simp
qed

lemma forEach_next_entry:
  "forEach handle event its w = (calls, c, w') \<Longrightarrow> Suc i < length calls \<Longrightarrow>
     snd (calls ! Suc i)
       = set_isPending (handler (its ! i)) False (snd (handle (handler (its ! i)) event (snd (calls ! i))))"
proof (induction its arbitrary: w calls c w' i)
  case Nil
  then show ?case by simp
next
  case (Cons it its)
  show ?case
  proof (cases "handle (handler it) event w")
    case (Pair r w1)
    show ?thesis
    proof (cases r)
      case (Threw x)
      with Pair Cons.prems show ?thesis by auto
    next
      case Returned
      obtain calls2 c2 w2 where rest:
        "forEach handle event its (set_isPending (handler it) False w1) = (calls2, c2, w2)"
        by (cases "forEach handle event its (set_isPending (handler it) False w1)") auto
      with Pair Returned Cons.prems have calls: "calls = (it, w) # calls2" by simp
      show ?thesis
      proof (cases i)
        case 0
        with calls Cons.prems have "calls2 \<noteq> []" by auto
        from forEach_first_entry [OF rest this] 0 calls Pair show ?thesis by simp
      next
        case (Suc k)
        with calls Cons.prems have "Suc k < length calls2" by simp
        from Cons.IH [OF rest this] Suc calls show ?thesis by simp
      qed
    qed
  qed
qed

lemma forEach_final_world:
  "forEach handle event its w = (calls, Returned, w') \<Longrightarrow> Suc i = length calls \<Longrightarrow>
     w' = set_isPending (handler (its ! i)) False (snd (handle (handler (its ! i)) event (snd (calls ! i))))"
proof (induction its arbitrary: w calls w' i)
  case Nil
  then show ?case by simp
next
  case (Cons it its)
  show ?case
  proof (cases "handle (handler it) event w")
    case (Pair r w1)
    show ?thesis
    proof (cases r)
      case (Threw x)
      with Pair Cons.prems show ?thesis by auto
    next
      case Returned
      obtain calls2 c2 w2 where rest:
        "forEach handle event its (set_isPending (handler it) False w1) = (calls2, c2, w2)"
        by (cases "forEach handle event its (set_isPending (handler it) False w1)") auto
      with Pair Returned Cons.prems have calls: "calls = (it, w) # calls2" "c2 = Returned" "w' = w2"
        by simp_all
      show ?thesis
      proof (cases i)
        case 0
        with calls Cons.prems have "calls2 = []" by simp
        with rest have "its = []"
          by (cases its) (auto split: prod.splits completion.splits)
        with rest calls 0 Pair show ?thesis by simp
      next
        case (Suc k)
        with calls Cons.prems have "Suc k = length calls2" by simp
        from Cons.IH [OF rest [unfolded calls(2)] this] Suc calls show ?thesis by simp
      qed
    qed
  qed
qed

lemma publish_forEach:
  assumes "publish handle event w = (calls, c, w')"
    and "snapshot = filter (\<lambda>it. type it = event_type event) (handlers w)"
  shows "forEach handle event snapshot (mark_pending snapshot w) = (calls, c, w')"
proof (cases "handlers w = []")
  case True
  with assms show ?thesis by (simp add: publish_def)
next
  case False
  with assms show ?thesis by (simp add: publish_def Let_def)
qed

lemma keeps_isPending_unsubscribing: "keeps_isPending (unsubscribing_handle b c)"
  by (simp add: keeps_isPending_def unsubscribing_handle_def unsubscribe_def)

lemma keeps_isPending_throwing: "keeps_isPending (throwing_handle b)"
  by (simp add: keeps_isPending_def throwing_handle_def)

lemma keeps_isPending_program: "keeps_isPending program_handle"
  by (auto simp: keeps_isPending_def program_handle_def MachineSaleSubscriber_handle_def
      LowStockWarningSubscriber_handle_def MachineRefillSubscriber_handle_def
      subscribe_def unsubscribe_def Let_def split: option.splits if_splits)

lemma abc_publish_calls:
  "map fst (fst (publish (unsubscribing_handle 1 2) (OtherEvent ''x'' ''001'' :: int IEvent) abc_subscribed))
     = [\<lparr>type = ''x'', handler = 0\<rparr>, \<lparr>type = ''x'', handler = 1\<rparr>, \<lparr>type = ''x'', handler = 2\<rparr>]"
  by (simp add: abc_subscribed_eq abc_objects_def publish_def unsubscribing_handle_def Let_def)

lemma abc_snapshot:
  "filter (\<lambda>it. type it = event_type (OtherEvent ''x'' ''001'' :: int IEvent)) (handlers abc_subscribed)
     = [\<lparr>type = ''x'', handler = 0\<rparr>, \<lparr>type = ''x'', handler = 1\<rparr>, \<lparr>type = ''x'', handler = 2\<rparr>]"
  by (simp add: abc_subscribed_eq abc_objects_def)

lemma program_publish_sale:
  "map fst (fst (publish program_handle (MachineSaleEvent 1 ''001'') program_start))
     = [\<lparr>type = ''sale'', handler = 0\<rparr>, \<lparr>type = ''sale'', handler = 1\<rparr>]"
  by (simp add: program_start_eq program_objects_def publish_def program_handle_def Let_def
      MachineSaleSubscriber_handle_def LowStockWarningSubscriber_handle_def checkStock_def
      saleSubscriber_def lowStockWarningSubscriber_def set_isPending_def)

lemma program_snapshot_sale:
  "filter (\<lambda>it. type it = event_type (MachineSaleEvent 1 ''001'' :: int IEvent)) (handlers program_start)
     = [\<lparr>type = ''sale'', handler = 0\<rparr>, \<lparr>type = ''sale'', handler = 1\<rparr>]"
  by (simp add: program_start_eq program_objects_def)

lemma abc_throwing_publish:
  "map fst (fst (publish (throwing_handle 1) (OtherEvent ''x'' ''001'' :: int IEvent) abc_subscribed))
     = [\<lparr>type = ''x'', handler = 0\<rparr>, \<lparr>type = ''x'', handler = 1\<rparr>]"
  by (simp add: abc_subscribed_eq abc_objects_def publish_def throwing_handle_def Let_def)


lemma set_isPending_events: "events (set_isPending r b w) = events w"
  by (simp add: set_isPending_def)

lemma mark_pending_events: "events (mark_pending its w) = events w"
  by (induction its arbitrary: w) (simp_all add: set_isPending_events)

lemma forEach_events:
  assumes K: "\<forall>r v. events (snd (handle r event v)) = events v"
  shows "events (snd (snd (forEach handle event its w))) = events w"
proof (induction its arbitrary: w)
  case Nil
  then show ?case by simp
next
  case (Cons it its)
  show ?case
  proof (cases "handle (handler it) event w")
    case (Pair r w1)
    have keep: "events w1 = events w"
      using K [rule_format, of "handler it" w] Pair by simp
    show ?thesis
    proof (cases r)
      case (Threw x)
      with Pair keep show ?thesis by simp
    next
      case Returned
      with Pair keep Cons.IH [of "set_isPending (handler it) False w1"] show ?thesis
        by (auto simp: set_isPending_events split: prod.splits)
    qed
  qed
qed

lemma publish_events:
  assumes "\<forall>r v. events (snd (handle r event v)) = events v"
  shows "events (snd (snd (publish handle event w))) = events w"
  using forEach_events [of handle event, OF assms] by (simp add: publish_def Let_def mark_pending_events)

lemma subscribe_events: "events (subscribe t h w) = events w"
  by (simp add: subscribe_def split: option.splits)

lemma unsubscribe_events: "events (unsubscribe t h w) = events w"
  by (simp add: unsubscribe_def)

lemma run_events: "keeps_events handle \<Longrightarrow> events (run handle op w) = events w"
  by (cases op) (simp_all add: publish_ref_def publish_events keeps_events_def
      subscribe_events unsubscribe_events)

lemma run_all_events: "keeps_events handle \<Longrightarrow> events (run_all handle ops w) = events w"
  unfolding run_all_def by (induction ops arbitrary: w) (simp_all add: run_events)

lemma program_handle_events: "events (snd (program_handle r v w)) = events w"
  by (auto simp: program_handle_def MachineSaleSubscriber_handle_def
      LowStockWarningSubscriber_handle_def MachineRefillSubscriber_handle_def
      subscribe_events unsubscribe_events Let_def split: option.splits)

lemma keeps_events_program: "keeps_events program_handle_ref"
  by (simp add: keeps_events_def program_handle_ref_def program_handle_events)

section \<open>The recipients of a publish call\<close>



section \<open>Subscribing\<close>

text \<open>
  What the registry becomes when the program's own subscribers run: four sales of 2 on
  machine 001 bring its stock to 2, so the low stock warning unsubscribes the sale
  subscriber; each of the two refills of 3 then subscribes it again.
\<close>

lemma program_run_duplicates:
  "fst (publish_all program_handle
      [MachineSaleEvent 2 ''001'', MachineSaleEvent 2 ''001'', MachineSaleEvent 2 ''001'',
       MachineSaleEvent 2 ''001'', MachineRefillEvent 3 ''001'', MachineRefillEvent 3 ''001'']
      program_start) = Returned
   \<and> handlers (snd (publish_all program_handle
      [MachineSaleEvent 2 ''001'', MachineSaleEvent 2 ''001'', MachineSaleEvent 2 ''001'',
       MachineSaleEvent 2 ''001'', MachineRefillEvent 3 ''001'', MachineRefillEvent 3 ''001'']
      program_start))
   = [\<lparr>type = ''sale'', handler = 1\<rparr>, \<lparr>type = ''refill'', handler = 2\<rparr>,
      \<lparr>type = ''sale'', handler = 0\<rparr>, \<lparr>type = ''sale'', handler = 0\<rparr>]"
  by code_simp

text \<open>
  Claim C2, at an input where the code departs from it. \<open>subscribe\<close> compares the class
  of the new handler with the class of the first record of that type only: after
  \<open>subscribe("sale", lowStockWarningSubscriber)\<close> on the empty registry, each call
  \<open>subscribe("sale", saleSubscriber)\<close> appends a record, and the registry holds two records
  of type \<open>"sale"\<close> for the class \<open>MachineSaleSubscriber\<close>.
\<close>

theorem subscribe_appends_duplicate:
  "handlers (subscribe ''sale'' saleSubscriber (subscribe ''sale'' saleSubscriber
        (subscribe ''sale'' lowStockWarningSubscriber program_objects)))
     = [\<lparr>type = ''sale'', handler = lowStockWarningSubscriber\<rparr>,
        \<lparr>type = ''sale'', handler = saleSubscriber\<rparr>,
        \<lparr>type = ''sale'', handler = saleSubscriber\<rparr>]"
  by (simp add: program_objects_def subscribe_def saleSubscriber_def lowStockWarningSubscriber_def)

text \<open>
  Claim C10. \<open>subscribe\<close> leaves the registry as it is or appends the one record
  \<open>(type, handler)\<close> at its end, the records it had staying where they were;
  \<open>unsubscribe\<close> leaves a subsequence of the registry (the order kept), drops only
  records that match its criterion, and keeps every record that does not; neither touches
  the subscriber objects or the machines.
\<close>

theorem subscribe_unsubscribe_frame:
  "(handlers (subscribe t h w) = handlers w
      \<or> handlers (subscribe t h w) = handlers w @ [\<lparr>type = t, handler = h\<rparr>])
   \<and> subscribers (subscribe t h w) = subscribers w
   \<and> machines (subscribe t h w) = machines w
   \<and> take (length (handlers w)) (handlers (subscribe t h w)) = handlers w
   \<and> subseq (handlers (unsubscribe t g w)) (handlers w)
   \<and> (\<forall>it \<in> set (handlers w). it \<notin> set (handlers (unsubscribe t g w)) \<longrightarrow>
        type it = t \<and> (case g of None \<Rightarrow> True
          | Some h' \<Rightarrow> constructor_name (subscribers w (handler it)) = constructor_name (subscribers w h')))
   \<and> filter (\<lambda>it. \<not> (type it = t \<and> (case g of None \<Rightarrow> True
          | Some h' \<Rightarrow> constructor_name (subscribers w (handler it)) = constructor_name (subscribers w h'))))
        (handlers (unsubscribe t g w))
      = filter (\<lambda>it. \<not> (type it = t \<and> (case g of None \<Rightarrow> True
          | Some h' \<Rightarrow> constructor_name (subscribers w (handler it)) = constructor_name (subscribers w h'))))
        (handlers w)
   \<and> subscribers (unsubscribe t g w) = subscribers w
   \<and> machines (unsubscribe t g w) = machines w"
proof -
  have s1: "handlers (subscribe t h w) = handlers w
      \<or> handlers (subscribe t h w) = handlers w @ [\<lparr>type = t, handler = h\<rparr>]"
    by (simp add: subscribe_def split: option.splits)
  have s2: "subscribers (subscribe t h w) = subscribers w" "machines (subscribe t h w) = machines w"
    by (simp_all add: subscribe_def split: option.splits)
  from s1 have s3: "take (length (handlers w)) (handlers (subscribe t h w)) = handlers w"
    by auto
  have u1: "subseq (handlers (unsubscribe t g w)) (handlers w)"
    by (simp add: unsubscribe_def)
  have u2: "\<forall>it \<in> set (handlers w). it \<notin> set (handlers (unsubscribe t g w)) \<longrightarrow>
        type it = t \<and> (case g of None \<Rightarrow> True
          | Some h' \<Rightarrow> constructor_name (subscribers w (handler it)) = constructor_name (subscribers w h'))"
    by (auto simp: unsubscribe_def split: option.splits)
  have u3: "filter (\<lambda>it. \<not> (type it = t \<and> (case g of None \<Rightarrow> True
          | Some h' \<Rightarrow> constructor_name (subscribers w (handler it)) = constructor_name (subscribers w h'))))
        (handlers (unsubscribe t g w))
      = filter (\<lambda>it. \<not> (type it = t \<and> (case g of None \<Rightarrow> True
          | Some h' \<Rightarrow> constructor_name (subscribers w (handler it)) = constructor_name (subscribers w h'))))
        (handlers w)"
    by (cases g) (auto simp: unsubscribe_def intro: filter_cong)
  have u4: "subscribers (unsubscribe t g w) = subscribers w" "machines (unsubscribe t g w) = machines w"
    by (simp_all add: unsubscribe_def)
  from s1 s2 s3 u1 u2 u3 u4 show ?thesis by blast
qed

theorem subscribe_unsubscribe_frame_witness:
  "handlers (subscribe ''sale'' saleSubscriber program_start) = handlers program_start
   \<and> handlers (subscribe ''refill'' lowStockWarningSubscriber program_start)
       = handlers program_start @ [\<lparr>type = ''refill'', handler = lowStockWarningSubscriber\<rparr>]
   \<and> subseq (handlers (unsubscribe ''sale'' (Some saleSubscriber) program_start)) (handlers program_start)
   \<and> handlers (unsubscribe ''sale'' (Some saleSubscriber) program_start)
       = [\<lparr>type = ''sale'', handler = 1\<rparr>, \<lparr>type = ''refill'', handler = 2\<rparr>]"
proof -
  have a: "handlers (subscribe ''sale'' saleSubscriber program_start) = handlers program_start"
    by (simp add: program_start_eq program_objects_def subscribe_def saleSubscriber_def)
  have b: "handlers (subscribe ''refill'' lowStockWarningSubscriber program_start)
       \<noteq> handlers program_start"
    by (simp add: program_start_eq program_objects_def subscribe_def lowStockWarningSubscriber_def)
  have c: "handlers (unsubscribe ''sale'' (Some saleSubscriber) program_start)
       = [\<lparr>type = ''sale'', handler = 1\<rparr>, \<lparr>type = ''refill'', handler = 2\<rparr>]"
    by (simp add: program_start_eq program_objects_def unsubscribe_def saleSubscriber_def)
  from subscribe_unsubscribe_frame
    [of "''refill''" lowStockWarningSubscriber program_start]
    b
  have b': "handlers (subscribe ''refill'' lowStockWarningSubscriber program_start)
       = handlers program_start @ [\<lparr>type = ''refill'', handler = lowStockWarningSubscriber\<rparr>]"
    by blast
  from subscribe_unsubscribe_frame
    [of "''sale''" saleSubscriber program_start "Some saleSubscriber"]
  have d: "subseq (handlers (unsubscribe ''sale'' (Some saleSubscriber) program_start)) (handlers program_start)"
    by blast
  from a b' c d show ?thesis by simp
qed

section \<open>Unsubscribing\<close>

text \<open>
  Claim C4. \<open>unsubscribe(type)\<close> removes every record of that type and no other;
  \<open>unsubscribe(type, handler)\<close> removes the records of that type whose handler has the
  class name of the given handler, and no other; so a record of that type that holds
  another object of the same class is removed too.
\<close>

theorem unsubscribe_removes_by_type_and_kind:
  "handlers (unsubscribe t None w) = filter (\<lambda>it. \<not> type it = t) (handlers w)
   \<and> handlers (unsubscribe t (Some h) w)
       = filter (\<lambda>it. \<not> (type it = t
            \<and> constructor_name (subscribers w (handler it)) = constructor_name (subscribers w h)))
          (handlers w)
   \<and> (it \<in> set (handlers w) \<and> type it = t \<and> handler it \<noteq> h
        \<and> constructor_name (subscribers w (handler it)) = constructor_name (subscribers w h)
       \<longrightarrow> it \<notin> set (handlers (unsubscribe t (Some h) w)))"
  by (simp add: unsubscribe_def)

theorem unsubscribe_removes_by_type_and_kind_witness:
  "handlers (unsubscribe ''sale'' None two_sale_objects)
     = [\<lparr>type = ''refill'', handler = 2\<rparr>, \<lparr>type = ''refill'', handler = 0\<rparr>]
   \<and> handlers (unsubscribe ''sale'' (Some 0) two_sale_objects)
     = [\<lparr>type = ''refill'', handler = 2\<rparr>, \<lparr>type = ''sale'', handler = 1\<rparr>,
        \<lparr>type = ''refill'', handler = 0\<rparr>]
   \<and> \<lparr>type = ''sale'', handler = 3\<rparr> \<in> set (handlers two_sale_objects)
   \<and> \<lparr>type = ''sale'', handler = 3\<rparr> \<notin> set (handlers (unsubscribe ''sale'' (Some 0) two_sale_objects))"
  using unsubscribe_removes_by_type_and_kind
    [of "''sale''" two_sale_objects 0 "\<lparr>type = ''sale'', handler = 3\<rparr>"]
  by (simp add: two_sale_objects_def)

text \<open>
  Claim C6. \<open>publish\<close> of an event whose type no record has (the empty registry
  included) invokes no \<open>handle\<close>, returns, and leaves the world as it was; \<open>unsubscribe\<close>
  of a type, or of a type and a handler, that no record matches leaves the world as it
  was. (\<open>unsubscribe\<close> has no exceptional exit at all.)
\<close>

theorem unmatched_lookups_are_noops:
  "(filter (\<lambda>it. type it = event_type event) (handlers w) = [] \<longrightarrow>
      publish handle event w = ([], Returned, w))
   \<and> ((\<forall>it \<in> set (handlers w). type it \<noteq> t) \<longrightarrow> unsubscribe t None w = w)
   \<and> ((\<forall>it \<in> set (handlers w). type it \<noteq> t
          \<or> constructor_name (subscribers w (handler it)) \<noteq> constructor_name (subscribers w h))
        \<longrightarrow> unsubscribe t (Some h) w = w)"
  by (simp add: publish_def unsubscribe_def Let_def)

theorem unmatched_lookups_are_noops_witness:
  "publish program_handle (OtherEvent ''restock'' ''001'') program_start = ([], Returned, program_start)
   \<and> publish program_handle (MachineSaleEvent 1 ''001'') program_objects = ([], Returned, program_objects)
   \<and> unsubscribe ''restock'' None program_start = program_start
   \<and> unsubscribe ''refill'' (Some saleSubscriber) program_start = program_start"
proof -
  have hs: "handlers program_start =
      [\<lparr>type = ''sale'', handler = 0\<rparr>, \<lparr>type = ''sale'', handler = 1\<rparr>, \<lparr>type = ''refill'', handler = 2\<rparr>]"
    by (simp add: program_start_def subscribe_def program_objects_def saleSubscriber_def
        lowStockWarningSubscriber_def refillSubscriber_def)
  have sb: "subscribers program_start = subscribers program_objects"
    by (simp add: program_start_def subscribe_def program_objects_def saleSubscriber_def
        lowStockWarningSubscriber_def refillSubscriber_def)
  have 1: "publish program_handle (OtherEvent ''restock'' ''001'') program_start = ([], Returned, program_start)"
    using unmatched_lookups_are_noops [of "OtherEvent ''restock'' ''001''" program_start program_handle]
    by (simp add: hs)
  have 2: "publish program_handle (MachineSaleEvent 1 ''001'') program_objects = ([], Returned, program_objects)"
    using unmatched_lookups_are_noops [of "MachineSaleEvent 1 ''001''" program_objects program_handle]
    by (simp add: program_objects_def)
  have 3: "unsubscribe ''restock'' None program_start = program_start"
    using unmatched_lookups_are_noops [of "OtherEvent ''restock'' ''001''" program_start program_handle "''restock''"]
    by (simp add: hs)
  have 4: "unsubscribe ''refill'' (Some saleSubscriber) program_start = program_start"
    using unmatched_lookups_are_noops [of "OtherEvent ''restock'' ''001''" program_start program_handle "''refill''" saleSubscriber]
    by (simp add: hs sb program_objects_def saleSubscriber_def)
  from 1 2 3 4 show ?thesis by simp
qed

section \<open>Events\<close>

text \<open>
  Claim C7. A \<open>MachineSaleEvent\<close> constructed with \<open>(sold, machineId)\<close> answers
  \<open>'sale'\<close>, \<open>machineId\<close> and \<open>sold\<close> to \<open>type()\<close>, \<open>machineId()\<close> and
  \<open>getSoldQuantity()\<close>; a \<open>MachineRefillEvent\<close> answers \<open>'refill'\<close>, its machine id and
  its refill quantity. No operation assigns to an event object: \<open>subscribe\<close> and
  \<open>unsubscribe\<close> leave the store of event objects as it is, and so does \<open>publish\<close> when
  the \<open>handle\<close> bodies do, as the bodies of the program do. Hence after any sequence of
  operations an event object that was constructed as a \<open>MachineSaleEvent\<close> or a
  \<open>MachineRefillEvent\<close> still gives the answers above.
\<close>

theorem events_never_change:
  "event_type (MachineSaleEvent sold mid) = ''sale''
   \<and> machineId (MachineSaleEvent sold mid) = mid
   \<and> getSoldQuantity (MachineSaleEvent sold mid) = Some sold
   \<and> event_type (MachineRefillEvent refill mid) = ''refill''
   \<and> machineId (MachineRefillEvent refill mid) = mid
   \<and> getRefillQuantity (MachineRefillEvent refill mid) = Some refill
   \<and> events (subscribe t h w) = events w
   \<and> events (unsubscribe t g w) = events w
   \<and> (keeps_events handle \<longrightarrow> events (snd (snd (publish_ref handle e w))) = events w)
   \<and> keeps_events program_handle_ref
   \<and> (keeps_events handle \<longrightarrow> events (run_all handle ops w) = events w)
   \<and> (keeps_events handle \<and> events w e = MachineSaleEvent sold mid \<longrightarrow>
        event_type (events (run_all handle ops w) e) = ''sale''
        \<and> machineId (events (run_all handle ops w) e) = mid
        \<and> getSoldQuantity (events (run_all handle ops w) e) = Some sold)
   \<and> (keeps_events handle \<and> events w e = MachineRefillEvent refill mid \<longrightarrow>
        event_type (events (run_all handle ops w) e) = ''refill''
        \<and> machineId (events (run_all handle ops w) e) = mid
        \<and> getRefillQuantity (events (run_all handle ops w) e) = Some refill)"
proof -
  have p: "events (snd (snd (publish_ref handle e w))) = events w" if "keeps_events handle"
    using run_events [OF that, of "Publish e" w] by simp
  have r: "events (run_all handle ops w) = events w" if "keeps_events handle"
    using run_all_events [OF that] .
  from p r keeps_events_program show ?thesis
    by (simp add: subscribe_events unsubscribe_events)
qed

theorem events_never_change_witness:
  "getSoldQuantity (events (run_all program_handle_ref
      [Publish 0, Publish 0, Publish 0, Publish 0, Publish 1, Unsubscribe ''sale'' None,
       Subscribe ''refill'' saleSubscriber, Publish 1, Publish 0]
      program_with_events) 0) = Some 2
   \<and> event_type (events (run_all program_handle_ref
      [Publish 0, Publish 0, Publish 0, Publish 0, Publish 1, Unsubscribe ''sale'' None,
       Subscribe ''refill'' saleSubscriber, Publish 1, Publish 0]
      program_with_events) 0) = ''sale''
   \<and> machineId (events (run_all program_handle_ref
      [Publish 0, Publish 0, Publish 0, Publish 0, Publish 1, Unsubscribe ''sale'' None,
       Subscribe ''refill'' saleSubscriber, Publish 1, Publish 0]
      program_with_events) 1) = ''001''
   \<and> getRefillQuantity (events (run_all program_handle_ref
      [Publish 0, Publish 0, Publish 0, Publish 0, Publish 1, Unsubscribe ''sale'' None,
       Subscribe ''refill'' saleSubscriber, Publish 1, Publish 0]
      program_with_events) 1) = Some 3"
proof -
  let ?ops = "[Publish 0, Publish 0, Publish 0, Publish 0, Publish 1, Unsubscribe ''sale'' None,
       Subscribe ''refill'' saleSubscriber, Publish 1, Publish 0]"
  have e0: "events program_with_events 0 = MachineSaleEvent 2 ''001''"
    and e1: "events program_with_events 1 = MachineRefillEvent 3 ''001''"
    by (simp_all add: program_with_events_def)
  from events_never_change [where w = program_with_events and handle = program_handle_ref
      and ops = ?ops and e = 0 and sold = 2 and mid = "''001''"] e0
  have a: "event_type (events (run_all program_handle_ref ?ops program_with_events) 0) = ''sale''"
    "getSoldQuantity (events (run_all program_handle_ref ?ops program_with_events) 0) = Some 2"
    by blast+
  from events_never_change [where w = program_with_events and handle = program_handle_ref
      and ops = ?ops and e = 1 and refill = 3 and mid = "''001''"] e1
  have b: "machineId (events (run_all program_handle_ref ?ops program_with_events) 1) = ''001''"
    "getRefillQuantity (events (run_all program_handle_ref ?ops program_with_events) 1) = Some 3"
    by blast+
  from a b show ?thesis by simp
qed

section \<open>Unsubscribing during a publish call\<close>

text \<open>
  Claim C5. Three handlers \<open>a\<close>, \<open>b\<close>, \<open>c\<close> of distinct classes are subscribed in that
  order to \<open>"x"\<close>, in a registry with no record of that type; the body of \<open>b\<close> calls
  \<open>unsubscribe("x", c)\<close>. Publishing an event of type \<open>"x"\<close> invokes \<open>a\<close>, \<open>b\<close> and \<open>c\<close>
  and returns; publishing a second one afterwards invokes \<open>a\<close> and \<open>b\<close> only.
\<close>

theorem scenario_unsubscribe_in_handler:
  assumes nox: "\<forall>it \<in> set (handlers w). type it \<noteq> ''x''"
    and kinds: "distinct [constructor_name (subscribers w a), constructor_name (subscribers w b),
                  constructor_name (subscribers w c)]"
    and w3: "w3 = subscribe ''x'' c (subscribe ''x'' b (subscribe ''x'' a w))"
    and first: "publish (unsubscribing_handle b c) (OtherEvent ''x'' m :: 'n IEvent) w3 = (calls1, c1, w4)"
    and second: "publish (unsubscribing_handle b c) (OtherEvent ''x'' m' :: 'n IEvent) w4 = (calls2, c2, w5)"
  shows "map (handler \<circ> fst) calls1 = [a, b, c] \<and> c1 = Returned
       \<and> map (handler \<circ> fst) calls2 = [a, b] \<and> c2 = Returned"
proof -
  let ?A = "\<lparr>type = ''x'', handler = a\<rparr>"
  let ?B = "\<lparr>type = ''x'', handler = b\<rparr>"
  let ?C = "\<lparr>type = ''x'', handler = c\<rparr>"
  from kinds have ne: "a \<noteq> b" "b \<noteq> c" "a \<noteq> c" by auto
  from nox have f0: "find (\<lambda>it. type it = ''x'') (handlers w) = None"
    by (simp add: find_None_iff)
  have w3': "w3 = w\<lparr>handlers := handlers w @ [?A, ?B, ?C]\<rparr>"
    using kinds nox by (simp add: w3 subscribe_def f0 find_append_skip)
  have snap: "filter (\<lambda>it. type it = ''x'') (handlers w @ [?A, ?B, ?C]) = [?A, ?B, ?C]"
    using nox by (simp add: filter_append_skip)
  have keep: "filter (\<lambda>it. type it \<noteq> ''x'' \<or> constructor_name (subscribers w (handler it))
                  \<noteq> constructor_name (subscribers w c)) (handlers w @ [?A, ?B, ?C])
              = handlers w @ [?A, ?B]"
    using nox kinds by (auto intro: filter_True)
  define v where "v = set_isPending a False (mark_pending [?A, ?B, ?C] w3)"
  have hv: "handlers v = handlers w @ [?A, ?B, ?C]"
    by (simp add: v_def set_isPending_simps w3')
  have cv: "constructor_name (subscribers v r) = constructor_name (subscribers w r)" for r
    by (simp add: v_def set_isPending_simps w3')
  have hu: "handlers (unsubscribe ''x'' (Some c) v) = handlers w @ [?A, ?B]"
    unfolding unsubscribe_def using keep by (simp add: hv cv)
  have p1: "publish (unsubscribing_handle b c) (OtherEvent ''x'' m :: 'n IEvent) w3
      = ([(?A, mark_pending [?A, ?B, ?C] w3), (?B, v),
          (?C, set_isPending b False (unsubscribe ''x'' (Some c) v))],
         Returned,
         set_isPending c False (set_isPending b False (unsubscribe ''x'' (Some c) v)))"
    using ne snap unfolding v_def
    by (simp add: publish_def w3' Let_def unsubscribing_handle_def)
  from first [unfolded p1] have r1: "map (handler \<circ> fst) calls1 = [a, b, c]" "c1 = Returned"
    and w4: "w4 = set_isPending c False (set_isPending b False (unsubscribe ''x'' (Some c) v))"
    by auto
  have h4: "handlers w4 = handlers w @ [?A, ?B]"
    by (simp add: w4 set_isPending_simps hu)
  have snap2: "filter (\<lambda>it. type it = ''x'') (handlers w4) = [?A, ?B]"
    using nox by (simp add: h4 filter_append_skip)
  from h4 have ne4: "handlers w4 \<noteq> []" by simp
  have p2: "map (handler \<circ> fst) (fst (publish (unsubscribing_handle b c) (OtherEvent ''x'' m' :: 'n IEvent) w4)) = [a, b]
      \<and> fst (snd (publish (unsubscribing_handle b c) (OtherEvent ''x'' m' :: 'n IEvent) w4)) = Returned"
    using ne ne4 by (simp add: publish_def Let_def snap2 unsubscribing_handle_def)
  from p2 [unfolded second] have r2: "map (handler \<circ> fst) calls2 = [a, b]" "c2 = Returned"
    by auto
  from r1 r2 show ?thesis by simp
qed

theorem scenario_unsubscribe_in_handler_witness:
  "map (handler \<circ> fst) (fst (publish (unsubscribing_handle 1 2) (OtherEvent ''x'' ''001'' :: int IEvent)
       abc_subscribed)) = [0, 1, 2]
   \<and> fst (snd (publish (unsubscribing_handle 1 2) (OtherEvent ''x'' ''001'' :: int IEvent) abc_subscribed))
       = Returned
   \<and> map (handler \<circ> fst) (fst (publish (unsubscribing_handle 1 2) (OtherEvent ''x'' ''002'' :: int IEvent)
       (snd (snd (publish (unsubscribing_handle 1 2) (OtherEvent ''x'' ''001'' :: int IEvent) abc_subscribed)))))
       = [0, 1]
   \<and> fst (snd (publish (unsubscribing_handle 1 2) (OtherEvent ''x'' ''002'' :: int IEvent)
       (snd (snd (publish (unsubscribing_handle 1 2) (OtherEvent ''x'' ''001'' :: int IEvent) abc_subscribed)))))
       = Returned"
proof -
  let ?E1 = "publish (unsubscribing_handle 1 2) (OtherEvent ''x'' ''001'' :: int IEvent) abc_subscribed"
  let ?E2 = "publish (unsubscribing_handle 1 2) (OtherEvent ''x'' ''002'' :: int IEvent) (snd (snd ?E1))"
  have nox: "\<forall>it \<in> set (handlers abc_objects). type it \<noteq> ''x''"
    by (simp add: abc_objects_def)
  have kinds: "distinct [constructor_name (subscribers abc_objects 0),
      constructor_name (subscribers abc_objects 1), constructor_name (subscribers abc_objects 2)]"
    by (simp add: abc_objects_def)
  have first: "?E1 = (fst ?E1, fst (snd ?E1), snd (snd ?E1))" by simp
  have second: "?E2 = (fst ?E2, fst (snd ?E2), snd (snd ?E2))" by simp
  from scenario_unsubscribe_in_handler [OF nox kinds abc_subscribed_def first second]
  show ?thesis by simp
qed

section \<open>The flag isPending\<close>

text \<open>
  Claim C8. During \<open>publish(event)\<close> the \<open>i\<close>-th call is the \<open>i\<close>-th record of the
  snapshot, and when the first \<open>handle\<close> is entered the flag of every handler of the
  snapshot is true. The flag of a recipient is cleared as soon as its \<open>handle\<close> has
  returned: the world in which the next recipient is entered, and for the last recipient
  the world that \<open>publish\<close> leaves when it returns, is the world that this \<open>handle\<close>
  left with just that flag set to false. If no body changes a flag, every recipient's
  flag is false when \<open>publish\<close> has returned. If moreover no handler object occurs twice
  in the snapshot, then when the \<open>i\<close>-th recipient is entered the flag of the \<open>j\<close>-th is
  true exactly if \<open>i \<le> j\<close> (true for itself and every later recipient, false for every
  earlier one), and its own flag is still true when its \<open>handle\<close> returns.
\<close>

theorem publish_pending_order:
  assumes pub: "publish handle event w = (calls, c, w')"
    and snap: "snapshot = filter (\<lambda>it. type it = event_type event) (handlers w)"
    and i: "i < length calls" and j: "j < length snapshot"
  shows "fst (calls ! i) = snapshot ! i
       \<and> isPending (subscribers (snd (calls ! 0)) (handler (snapshot ! j)))
       \<and> (Suc i < length calls \<longrightarrow>
            snd (calls ! Suc i) = set_isPending (handler (snapshot ! i)) False
              (snd (handle (handler (snapshot ! i)) event (snd (calls ! i))))
            \<and> \<not> isPending (subscribers (snd (calls ! Suc i)) (handler (snapshot ! i))))
       \<and> (c = Returned \<and> Suc i = length calls \<longrightarrow>
            w' = set_isPending (handler (snapshot ! i)) False
              (snd (handle (handler (snapshot ! i)) event (snd (calls ! i))))
            \<and> \<not> isPending (subscribers w' (handler (snapshot ! i))))
       \<and> (c = Returned \<and> keeps_isPending handle \<longrightarrow>
            \<not> isPending (subscribers w' (handler (snapshot ! j))))
       \<and> (keeps_isPending handle \<and> distinct (map handler snapshot) \<longrightarrow>
            isPending (subscribers (snd (calls ! i)) (handler (snapshot ! j))) = (i \<le> j)
            \<and> isPending (subscribers (snd (handle (handler (snapshot ! i)) event (snd (calls ! i))))
                 (handler (snapshot ! i))))"
proof -
  note fe = publish_forEach [OF pub snap]
  from forEach_calls_take [OF fe] i have a: "fst (calls ! i) = snapshot ! i"
    by (metis length_map nth_map nth_take)
  from i have "calls \<noteq> []" by auto
  from forEach_first_entry [OF fe this] j
  have b: "isPending (subscribers (snd (calls ! 0)) (handler (snapshot ! j)))"
    by (simp add: mark_pending_isPending)
  have c1: "snd (calls ! Suc i) = set_isPending (handler (snapshot ! i)) False
              (snd (handle (handler (snapshot ! i)) event (snd (calls ! i))))"
    if "Suc i < length calls"
    using forEach_next_entry [OF fe that] .
  have c2: "\<not> isPending (subscribers (snd (calls ! Suc i)) (handler (snapshot ! i)))"
    if "Suc i < length calls"
    using c1 [OF that] by (simp add: set_isPending_simps)
  have e1: "w' = set_isPending (handler (snapshot ! i)) False
              (snd (handle (handler (snapshot ! i)) event (snd (calls ! i))))"
    if "c = Returned" "Suc i = length calls"
    using forEach_final_world [OF fe [unfolded that(1)] that(2)] .
  have e2: "\<not> isPending (subscribers w' (handler (snapshot ! i)))"
    if "c = Returned" "Suc i = length calls"
    using e1 [OF that] by (simp add: set_isPending_simps)
  have f: "\<not> isPending (subscribers w' (handler (snapshot ! j)))"
    if ret: "c = Returned" and keeps: "keeps_isPending handle"
  proof -
    from keeps have P: "\<forall>r e v p. isPending (subscribers (snd (handle r e v)) p) = isPending (subscribers v p)"
      by (simp add: keeps_isPending_def)
    from forEach_Returned_eq [OF fe [unfolded ret]] have "length calls = length snapshot"
      by (metis length_map)
    with forEach_final_isPending [OF P fe, of "handler (snapshot ! j)"] ret j show ?thesis by simp
  qed
  have d1: "isPending (subscribers (snd (calls ! i)) (handler (snapshot ! j))) = (i \<le> j)"
    if keeps: "keeps_isPending handle" and dist: "distinct (map handler snapshot)"
  proof -
    from keeps have P: "\<forall>r e v p. isPending (subscribers (snd (handle r e v)) p) = isPending (subscribers v p)"
      by (simp add: keeps_isPending_def)
    from forEach_entry_isPending [OF P fe i, of "handler (snapshot ! j)"] j
    have "isPending (subscribers (snd (calls ! i)) (handler (snapshot ! j)))
        = (handler (snapshot ! j) \<notin> handler ` set (take i snapshot))"
      by (simp add: mark_pending_isPending)
    with distinct_take_mem [OF dist j, of i] show ?thesis by auto
  qed
  have d2: "isPending (subscribers (snd (handle (handler (snapshot ! i)) event (snd (calls ! i))))
                 (handler (snapshot ! i)))"
    if keeps: "keeps_isPending handle" and dist: "distinct (map handler snapshot)"
  proof -
    from forEach_calls_take [OF fe] i have il: "i < length snapshot"
      by (metis length_map length_take min_less_iff_conj)
    from keeps have P: "\<forall>r e v p. isPending (subscribers (snd (handle r e v)) p) = isPending (subscribers v p)"
      by (simp add: keeps_isPending_def)
    from forEach_entry_isPending [OF P fe i, of "handler (snapshot ! i)"] il
    have "isPending (subscribers (snd (calls ! i)) (handler (snapshot ! i)))
        = (handler (snapshot ! i) \<notin> handler ` set (take i snapshot))"
      by (simp add: mark_pending_isPending)
    with distinct_take_mem [OF dist il, of i]
    have "isPending (subscribers (snd (calls ! i)) (handler (snapshot ! i)))" by auto
    with P show ?thesis by simp
  qed
  from a b c1 c2 e1 e2 f d1 d2 show ?thesis by blast
qed

theorem publish_pending_order_witness:
  "fst (fst (publish (unsubscribing_handle 1 2) (OtherEvent ''x'' ''001'' :: int IEvent) abc_subscribed) ! 1)
     = \<lparr>type = ''x'', handler = 1\<rparr>
   \<and> isPending (subscribers (snd (fst (publish (unsubscribing_handle 1 2)
         (OtherEvent ''x'' ''001'' :: int IEvent) abc_subscribed) ! 0)) 2)
   \<and> isPending (subscribers (snd (fst (publish (unsubscribing_handle 1 2)
         (OtherEvent ''x'' ''001'' :: int IEvent) abc_subscribed) ! 1)) 2)
   \<and> \<not> isPending (subscribers (snd (fst (publish (unsubscribing_handle 1 2)
         (OtherEvent ''x'' ''001'' :: int IEvent) abc_subscribed) ! 1)) 0)
   \<and> \<not> isPending (subscribers (snd (fst (publish (unsubscribing_handle 1 2)
         (OtherEvent ''x'' ''001'' :: int IEvent) abc_subscribed) ! 2)) 1)
   \<and> \<not> isPending (subscribers (snd (snd (publish (unsubscribing_handle 1 2)
         (OtherEvent ''x'' ''001'' :: int IEvent) abc_subscribed))) 2)
   \<and> \<not> isPending (subscribers (snd (snd (publish (unsubscribing_handle 1 2)
         (OtherEvent ''x'' ''001'' :: int IEvent) abc_subscribed))) 0)"
proof -
  let ?E = "publish (unsubscribing_handle 1 2) (OtherEvent ''x'' ''001'' :: int IEvent) abc_subscribed"
  let ?S = "[\<lparr>type = ''x'', handler = 0\<rparr>, \<lparr>type = ''x'', handler = 1\<rparr>, \<lparr>type = ''x'', handler = 2::nat\<rparr>]"
  have pub: "?E = (fst ?E, fst (snd ?E), snd (snd ?E))" by simp
  have snap: "?S = filter (\<lambda>it. type it = event_type (OtherEvent ''x'' ''001'' :: int IEvent)) (handlers abc_subscribed)"
    by (simp only: abc_snapshot)
  have len: "length (fst ?E) = 3"
    using arg_cong [OF abc_publish_calls, of length] by simp
  have ret: "fst (snd ?E) = Returned"
    by (simp add: abc_subscribed_eq abc_objects_def publish_def unsubscribing_handle_def Let_def)
  have i1: "1 < length (fst ?E)" and i2: "2 < length (fst ?E)" unfolding len by simp_all
  have d: "distinct (map handler ?S)" by simp
  note k = keeps_isPending_unsubscribing [of 1 2]
  from publish_pending_order [OF pub snap i1, of 2] k d
  have a: "fst (fst ?E ! 1) = \<lparr>type = ''x'', handler = 1\<rparr>"
    "isPending (subscribers (snd (fst ?E ! 0)) 2)" "isPending (subscribers (snd (fst ?E ! 1)) 2)"
    by auto
  from publish_pending_order [OF pub snap i1, of 0] k d ret
  have b: "\<not> isPending (subscribers (snd (fst ?E ! 1)) 0)"
    "\<not> isPending (subscribers (snd (snd ?E)) 0)"
    by auto
  from publish_pending_order [OF pub snap i2, of 1] k d
  have b': "\<not> isPending (subscribers (snd (fst ?E ! 2)) 1)"
    by auto
  from publish_pending_order [OF pub snap i2, of 0] ret len
  have c: "\<not> isPending (subscribers (snd (snd ?E)) 2)"
    by auto
  from a b b' c show ?thesis by simp
qed

text \<open>
  The calls \<open>subscribe("x", C)\<close>, \<open>subscribe("x", A)\<close>, \<open>subscribe("x", B)\<close>,
  \<open>subscribe("x", A)\<close> on the empty registry put the object A in it twice. When the third
  recipient (B) is entered, the flag of the fourth (A again) is false: it was cleared
  when A returned as the second.
\<close>

theorem publish_pending_order_counterexample:
  "map fst (fst (publish idle_handle (OtherEvent ''x'' ''001'' :: int IEvent) caba_subscribed))
     = [\<lparr>type = ''x'', handler = 2\<rparr>, \<lparr>type = ''x'', handler = 0\<rparr>,
        \<lparr>type = ''x'', handler = 1\<rparr>, \<lparr>type = ''x'', handler = 0\<rparr>]
   \<and> \<not> isPending (subscribers (snd (fst (publish idle_handle (OtherEvent ''x'' ''001'' :: int IEvent)
          caba_subscribed) ! 2))
        (handler (fst (fst (publish idle_handle (OtherEvent ''x'' ''001'' :: int IEvent)
          caba_subscribed) ! 3))))"
  by (simp add: caba_subscribed_eq abc_objects_def publish_def idle_handle_def Let_def set_isPending_def)

text \<open>
  Claim C3, as amended. If no body changes a flag and no handler object occurs twice in
  the snapshot: the flag of the \<open>j\<close>-th recipient is true when any recipient up to and
  including itself is entered (so already while the recipients before it execute) and
  false when any later one is entered; when \<open>publish\<close> has returned the flag of every
  recipient is false; and the flag of an object that is not a recipient is what it was,
  at every entry and at the end.
\<close>

theorem isPending_lifetime:
  assumes pub: "publish handle event w = (calls, c, w')"
    and snap: "snapshot = filter (\<lambda>it. type it = event_type event) (handlers w)"
    and keeps: "keeps_isPending handle"
    and dist: "distinct (map handler snapshot)"
  shows "(\<forall>i j. i < length calls \<and> j < length snapshot \<longrightarrow>
            isPending (subscribers (snd (calls ! i)) (handler (snapshot ! j))) = (i \<le> j))
       \<and> (c = Returned \<longrightarrow> (\<forall>it \<in> set snapshot. \<not> isPending (subscribers w' (handler it))))
       \<and> (\<forall>p. p \<notin> handler ` set snapshot \<longrightarrow>
            isPending (subscribers w' p) = isPending (subscribers w p)
            \<and> (\<forall>i < length calls. isPending (subscribers (snd (calls ! i)) p) = isPending (subscribers w p)))"
proof -
  note fe = publish_forEach [OF pub snap]
  from keeps have P: "\<forall>r e v p. isPending (subscribers (snd (handle r e v)) p) = isPending (subscribers v p)"
    by (simp add: keeps_isPending_def)
  have a: "isPending (subscribers (snd (calls ! i)) (handler (snapshot ! j))) = (i \<le> j)"
    if "i < length calls" "j < length snapshot" for i j
  proof -
    from forEach_entry_isPending [OF P fe that(1), of "handler (snapshot ! j)"] that(2)
    have "isPending (subscribers (snd (calls ! i)) (handler (snapshot ! j)))
        = (handler (snapshot ! j) \<notin> handler ` set (take i snapshot))"
      by (simp add: mark_pending_isPending)
    with distinct_take_mem [OF dist that(2), of i] show ?thesis by auto
  qed
  have b: "\<not> isPending (subscribers w' (handler it))" if "c = Returned" "it \<in> set snapshot" for it
  proof -
    from forEach_Returned_eq [of handle event snapshot "mark_pending snapshot w" calls w'] fe that(1)
    have "length calls = length snapshot" by (metis length_map)
    with forEach_final_isPending [OF P fe, of "handler it"] that show ?thesis by simp
  qed
  have c1: "isPending (subscribers w' p) = isPending (subscribers w p)"
    if "p \<notin> handler ` set snapshot" for p
  proof -
    from that have "p \<notin> handler ` set (take n snapshot)" for n
      by (auto dest: in_set_takeD)
    with forEach_final_isPending [OF P fe, of p] that show ?thesis
      by (simp add: mark_pending_isPending)
  qed
  have c2: "isPending (subscribers (snd (calls ! i)) p) = isPending (subscribers w p)"
    if "p \<notin> handler ` set snapshot" "i < length calls" for p i
  proof -
    from that have "p \<notin> handler ` set (take n snapshot)" for n
      by (auto dest: in_set_takeD)
    with forEach_entry_isPending [OF P fe that(2), of p] that show ?thesis
      by (simp add: mark_pending_isPending)
  qed
  from a b c1 c2 show ?thesis by blast
qed

theorem isPending_lifetime_witness:
  "isPending (subscribers (snd (fst (publish program_handle (MachineSaleEvent 1 ''001'') program_start) ! 0))
      lowStockWarningSubscriber)
   \<and> \<not> isPending (subscribers (snd (fst (publish program_handle (MachineSaleEvent 1 ''001'') program_start) ! 1))
      saleSubscriber)
   \<and> \<not> isPending (subscribers (snd (snd (publish program_handle (MachineSaleEvent 1 ''001'') program_start)))
      lowStockWarningSubscriber)
   \<and> \<not> isPending (subscribers (snd (snd (publish program_handle (MachineSaleEvent 1 ''001'') program_start)))
      refillSubscriber)"
proof -
  let ?E = "publish program_handle (MachineSaleEvent 1 ''001'') program_start"
  let ?S = "[\<lparr>type = ''sale'', handler = 0\<rparr>, \<lparr>type = ''sale'', handler = 1::nat\<rparr>]"
  have pub: "?E = (fst ?E, fst (snd ?E), snd (snd ?E))" by simp
  have snap: "?S = filter (\<lambda>it. type it = event_type (MachineSaleEvent 1 ''001'' :: int IEvent)) (handlers program_start)"
    by (simp only: program_snapshot_sale)
  have len: "length (fst ?E) = 2"
    using arg_cong [OF program_publish_sale, of length] by simp
  have ret: "fst (snd ?E) = Returned"
    by (simp add: program_start_eq program_objects_def publish_def program_handle_def Let_def
      MachineSaleSubscriber_handle_def LowStockWarningSubscriber_handle_def checkStock_def
      saleSubscriber_def lowStockWarningSubscriber_def set_isPending_def)
  have d: "distinct (map handler ?S)" by simp
  have init: "\<not> isPending (subscribers program_start refillSubscriber)"
    by (simp add: program_start_eq program_objects_def)
  note L = isPending_lifetime [OF pub snap keeps_isPending_program d]
  from L have a: "isPending (subscribers (snd (fst ?E ! 0)) (handler (?S ! 1))) = (0 \<le> (1::nat))"
    unfolding len by (elim conjE allE [of _ 0] allE [of _ 1]) simp
  from L have b: "isPending (subscribers (snd (fst ?E ! 1)) (handler (?S ! 0))) = (1 \<le> (0::nat))"
    unfolding len by (elim conjE allE [of _ 1] allE [of _ 0]) simp
  from L ret have c: "\<not> isPending (subscribers (snd (snd ?E)) (handler \<lparr>type = ''sale'', handler = 1\<rparr>))"
    by simp
  from L have e: "isPending (subscribers (snd (snd ?E)) refillSubscriber)
      = isPending (subscribers program_start refillSubscriber)"
    by (elim conjE allE [of _ refillSubscriber]) (simp add: refillSubscriber_def)
  from a b c e init show ?thesis
    by (simp add: saleSubscriber_def lowStockWarningSubscriber_def)
qed

text \<open>
  Claim C3 as it is written fails on the program's own start: when the sale subscriber,
  the first recipient of a sale event, is entered, the flag of the low stock warning,
  whose turn is still to come, is true already.
\<close>

theorem isPending_counterexample:
  "fst (fst (publish program_handle (MachineSaleEvent 1 ''001'') program_start) ! 0)
     = \<lparr>type = ''sale'', handler = saleSubscriber\<rparr>
   \<and> isPending (subscribers (snd (fst (publish program_handle (MachineSaleEvent 1 ''001'') program_start) ! 0))
        lowStockWarningSubscriber)"
  by (simp add: program_start_eq program_objects_def publish_def program_handle_def Let_def
      MachineSaleSubscriber_handle_def LowStockWarningSubscriber_handle_def checkStock_def
      saleSubscriber_def lowStockWarningSubscriber_def set_isPending_def)

text \<open>
  Claim C9. If the \<open>k\<close>-th invocation of \<open>handle\<close> throws \<open>x\<close>, then \<open>publish\<close> ends by
  throwing \<open>x\<close> and the calls made are the first \<open>k + 1\<close> records of the snapshot: no
  later recipient is invoked. If moreover no body changes a flag and no handler object
  occurs twice in the snapshot, the flags of the throwing recipient and of all later ones
  are true in the world that \<open>publish\<close> leaves.
\<close>

theorem exception_leaves_publish:
  assumes pub: "publish handle event w = (calls, c, w')"
    and snap: "snapshot = filter (\<lambda>it. type it = event_type event) (handlers w)"
    and k: "k < length calls"
    and thrown: "fst (handle (handler (fst (calls ! k))) event (snd (calls ! k))) = Threw x"
  shows "c = Threw x \<and> map fst calls = take (Suc k) snapshot
       \<and> (keeps_isPending handle \<and> distinct (map handler snapshot) \<longrightarrow>
            (\<forall>j. k \<le> j \<and> j < length snapshot \<longrightarrow> isPending (subscribers w' (handler (snapshot ! j)))))"
proof -
  note fe = publish_forEach [OF pub snap]
  from forEach_call_completion [OF fe k] thrown
  have len: "Suc k = length calls" and c: "c = Threw x"
    by (auto split: if_splits)
  from forEach_calls_take [OF fe] len have t: "map fst calls = take (Suc k) snapshot" by simp
  have f: "isPending (subscribers w' (handler (snapshot ! j)))"
    if keeps: "keeps_isPending handle" and dist: "distinct (map handler snapshot)"
      and j: "k \<le> j" "j < length snapshot" for j
  proof -
    from keeps have P: "\<forall>r e v p. isPending (subscribers (snd (handle r e v)) p) = isPending (subscribers v p)"
      by (simp add: keeps_isPending_def)
    from len have "length calls - 1 = k" by simp
    with forEach_final_isPending [OF P fe, of "handler (snapshot ! j)"] c j
    have "isPending (subscribers w' (handler (snapshot ! j)))
        = (handler (snapshot ! j) \<notin> handler ` set (take k snapshot))"
      by (simp add: mark_pending_isPending)
    with distinct_take_mem [OF dist j(2), of k] j(1) show ?thesis by auto
  qed
  from c t f show ?thesis by blast
qed

theorem exception_leaves_publish_witness:
  "fst (snd (publish (throwing_handle 1) (OtherEvent ''x'' ''001'' :: int IEvent) abc_subscribed))
     = Threw (Error ''boom'')
   \<and> map fst (fst (publish (throwing_handle 1) (OtherEvent ''x'' ''001'' :: int IEvent) abc_subscribed))
     = [\<lparr>type = ''x'', handler = 0\<rparr>, \<lparr>type = ''x'', handler = 1\<rparr>]
   \<and> isPending (subscribers (snd (snd (publish (throwing_handle 1)
         (OtherEvent ''x'' ''001'' :: int IEvent) abc_subscribed))) 1)
   \<and> isPending (subscribers (snd (snd (publish (throwing_handle 1)
         (OtherEvent ''x'' ''001'' :: int IEvent) abc_subscribed))) 2)"
proof -
  let ?E = "publish (throwing_handle 1) (OtherEvent ''x'' ''001'' :: int IEvent) abc_subscribed"
  let ?S = "[\<lparr>type = ''x'', handler = 0\<rparr>, \<lparr>type = ''x'', handler = 1\<rparr>, \<lparr>type = ''x'', handler = 2::nat\<rparr>]"
  have pub: "?E = (fst ?E, fst (snd ?E), snd (snd ?E))" by simp
  have snap: "?S = filter (\<lambda>it. type it = event_type (OtherEvent ''x'' ''001'' :: int IEvent)) (handlers abc_subscribed)"
    by (simp only: abc_snapshot)
  have len: "length (fst ?E) = 2"
    using arg_cong [OF abc_throwing_publish, of length] by simp
  have k: "1 < length (fst ?E)" unfolding len by simp
  have "fst (fst ?E ! 1) = \<lparr>type = ''x'', handler = 1\<rparr>"
    using arg_cong [OF abc_throwing_publish, of "\<lambda>xs. xs ! 1"] len by simp
  then have thrown: "fst (throwing_handle 1 (handler (fst (fst ?E ! 1))) (OtherEvent ''x'' ''001'' :: int IEvent)
      (snd (fst ?E ! 1))) = Threw (Error ''boom'')"
    by (simp add: throwing_handle_def)
  have d: "distinct (map handler ?S)" by simp
  note L = exception_leaves_publish [OF pub snap k thrown]
  from L have a: "fst (snd ?E) = Threw (Error ''boom'')" and b: "map fst (fst ?E) = take (Suc 1) ?S"
    by blast+
  from L keeps_isPending_throwing d
  have f: "\<forall>j. 1 \<le> j \<and> j < length ?S \<longrightarrow> isPending (subscribers (snd (snd ?E)) (handler (?S ! j)))"
    by blast
  from f [rule_format, of 1] f [rule_format, of 2] a b show ?thesis by simp
qed

text \<open>
  With the object A twice in the registry (as above) and a body of B that throws: A, the
  fourth recipient, is never visited, and its flag is false when \<open>publish\<close> is left.
\<close>

theorem exception_leaves_publish_counterexample:
  "map fst (fst (publish (throwing_handle 1) (OtherEvent ''x'' ''001'' :: int IEvent) caba_subscribed))
     = [\<lparr>type = ''x'', handler = 2\<rparr>, \<lparr>type = ''x'', handler = 0\<rparr>, \<lparr>type = ''x'', handler = 1\<rparr>]
   \<and> fst (snd (publish (throwing_handle 1) (OtherEvent ''x'' ''001'' :: int IEvent) caba_subscribed))
     = Threw (Error ''boom'')
   \<and> filter (\<lambda>it. type it = event_type (OtherEvent ''x'' ''001'' :: int IEvent)) (handlers caba_subscribed) ! 3
     = \<lparr>type = ''x'', handler = 0\<rparr>
   \<and> \<not> isPending (subscribers (snd (snd (publish (throwing_handle 1)
         (OtherEvent ''x'' ''001'' :: int IEvent) caba_subscribed))) 0)"
  by (simp add: caba_subscribed_eq abc_objects_def publish_def throwing_handle_def Let_def set_isPending_def)

text \<open>
  An exception of the program's own classes: a \<open>MachineSaleSubscriber\<close> subscribed to
  \<open>"refill"\<close> is handed a \<open>MachineRefillEvent\<close>, which has no \<open>getSoldQuantity\<close>; the
  TypeError leaves \<open>publish\<close> and the flag of the subscriber stays true.
\<close>

lemma misrouted_sale_subscriber_throws:
  "map fst (fst (publish program_handle (MachineRefillEvent 3 ''001'')
      (subscribe ''refill'' saleSubscriber program_start)))
     = [\<lparr>type = ''refill'', handler = refillSubscriber\<rparr>, \<lparr>type = ''refill'', handler = saleSubscriber\<rparr>]
   \<and> fst (snd (publish program_handle (MachineRefillEvent 3 ''001'')
      (subscribe ''refill'' saleSubscriber program_start))) = Threw TypeError
   \<and> isPending (subscribers (snd (snd (publish program_handle (MachineRefillEvent 3 ''001'')
      (subscribe ''refill'' saleSubscriber program_start)))) saleSubscriber)"
  by (simp add: program_start_eq program_objects_def publish_def program_handle_def Let_def
      MachineSaleSubscriber_handle_def MachineRefillSubscriber_handle_def checkStock_def subscribe_def
      saleSubscriber_def lowStockWarningSubscriber_def refillSubscriber_def set_isPending_def)

end
